theory Spec2Isabelle
  imports Main "HOL-Library.Word" "HOL-Library.Sublist"
begin

section \<open>JavaScript strings\<close>

text \<open>
  A JavaScript string is a sequence of 16-bit UTF-16 code units; \<open>length\<close>, \<open>trim\<close>,
  \<open>startsWith\<close> and regular expressions without the \<open>u\<close> flag all work on code units.
\<close>

type_synonym jsstring = "16 word list"

text \<open>ASCII literals of the source, written as Isabelle strings.\<close>

definition js :: "string \<Rightarrow> jsstring" where
  "js s = map (\<lambda>c. word_of_nat (of_char c)) s"

section \<open>services/geminiService.ts: detectDominantLanguage\<close>

datatype language = En | Zh

text \<open>The character classes \<open>/[a-zA-Z]/\<close> and \<open>/[U+4E00-U+9FA5]/\<close>.\<close>

definition enRegex :: "16 word \<Rightarrow> bool" where
  "enRegex c \<longleftrightarrow> (0x61 \<le> c \<and> c \<le> 0x7A) \<or> (0x41 \<le> c \<and> c \<le> 0x5A)"

definition zhRegex :: "16 word \<Rightarrow> bool" where
  "zhRegex c \<longleftrightarrow> 0x4E00 \<le> c \<and> c \<le> 0x9FA5"

text \<open>
  \<open>(text.match(re) || []).length\<close> for a global single-character class: the number of
  code units of the text in the class (\<open>match\<close> gives \<open>null\<close> when there is none, which
  \<open>|| []\<close> turns into length 0).
\<close>

definition match_count :: "(16 word \<Rightarrow> bool) \<Rightarrow> jsstring \<Rightarrow> nat" where
  "match_count re text = length (filter re text)"

text \<open>
  The \<open>for (const text of texts)\<close> loop with its two counters; \<open>if (!text) continue\<close>
  skips the empty string.
\<close>

fun count_loop :: "jsstring list \<Rightarrow> nat \<times> nat \<Rightarrow> nat \<times> nat" where
  "count_loop [] (enChars, zhChars) = (enChars, zhChars)"
| "count_loop (text # texts) (enChars, zhChars) =
     (if text = [] then count_loop texts (enChars, zhChars)
      else count_loop texts
             (enChars + match_count enRegex text, zhChars + match_count zhRegex text))"

definition detectDominantLanguage :: "jsstring list \<Rightarrow> language" where
  "detectDominantLanguage texts =
     (case count_loop texts (0, 0) of
        (enChars, zhChars) \<Rightarrow>
          if enChars + zhChars < 100 then En
          else if zhChars > enChars then Zh else En)"

text \<open>What the claim counts: Latin letters and CJK characters across all texts.\<close>

definition latin_total :: "jsstring list \<Rightarrow> nat" where
  "latin_total texts = length (filter enRegex (concat texts))"

definition cjk_total :: "jsstring list \<Rightarrow> nat" where
  "cjk_total texts = length (filter zhRegex (concat texts))"

section \<open>App.tsx: the file-ingestion pipeline\<close>

subsection \<open>String helpers of the platform\<close>

text \<open>
  \<open>String.prototype.trim\<close> removes WhiteSpace and LineTerminator code units from both
  ends; the regular-expression class \<open>\s\<close> is the same set.
\<close>

definition is_space :: "16 word \<Rightarrow> bool" where
  "is_space c \<longleftrightarrow>
     c \<in> {0x09, 0x0A, 0x0B, 0x0C, 0x0D, 0x20, 0xA0, 0x1680, 0x2028, 0x2029,
          0x202F, 0x205F, 0x3000, 0xFEFF}
     \<or> (0x2000 \<le> c \<and> c \<le> 0x200A)"

definition trim :: "jsstring \<Rightarrow> jsstring" where
  "trim s = rev (dropWhile is_space (rev (dropWhile is_space s)))"

definition startsWith :: "jsstring \<Rightarrow> jsstring \<Rightarrow> bool" where
  "startsWith s p = prefix p s"

definition endsWith :: "jsstring \<Rightarrow> jsstring \<Rightarrow> bool" where
  "endsWith s p = suffix p s"

text \<open>
  \<open>`${n}`\<close> for a non-negative integer such as \<open>Date.now()\<close> or an array index:
  its decimal digits.
\<close>

definition digit :: "nat \<Rightarrow> 16 word" where
  "digit d = word_of_nat (48 + d)"

fun decimal :: "nat \<Rightarrow> jsstring" where
  "decimal n = (if n < 10 then [digit n] else decimal (n div 10) @ [digit (n mod 10)])"

declare decimal.simps [simp del]

text \<open>
  \<open>Array.prototype.slice(0, end)\<close>: a negative \<open>end\<close> counts from the end of the
  array, and the result is empty when the resolved end is not positive.
\<close>

definition slice0 :: "'a list \<Rightarrow> int \<Rightarrow> 'a list" where
  "slice0 xs e =
     (let len = int (length xs);
          final = (if e < 0 then max (len + e) 0 else min e len)
      in take (nat final) xs)"

subsection \<open>Thrown values, promises and withTimeout\<close>

text \<open>
  A thrown or rejected value, as far as the handler reads it: its \<open>message\<close> property
  (\<open>None\<close> when the value has none, as for a rejection with a plain string).
\<close>

datatype error = Error (message_of: "jsstring option")

text \<open>
  A promise of the libraries (\<open>file.text()\<close>, mammoth, pdf.js, Tesseract) is given by
  what it does: it fulfils or rejects some milliseconds after it was started, or it
  never settles.
\<close>

datatype 'a promise = Fulfils nat 'a | Rejects nat error | Pending

definition PARSING_TIMEOUT :: nat where
  "PARSING_TIMEOUT = 30000"

definition OCR_TIMEOUT :: nat where
  "OCR_TIMEOUT = 60000"

definition msg_timeout_default :: jsstring where
  "msg_timeout_default = [0x64CD, 0x4F5C, 0x8D85, 0x65F6]"

definition msg_pdf_timeout :: jsstring where
  "msg_pdf_timeout = [0x521D, 0x6B65, 0x6587, 0x672C, 0x63D0, 0x53D6, 0x8D85, 0x65F6, 0x3002]"

definition msg_ocr_timeout :: jsstring where
  "msg_ocr_timeout =
     [0x4F, 0x43, 0x52, 0x5904, 0x7406, 0x8D85, 0x65F6, 0x3002, 0x6587, 0x4EF6, 0x53EF,
      0x80FD, 0x8FC7, 0x4E8E, 0x590D, 0x6742, 0x3002]"

definition msg_unsupported_prefix :: jsstring where
  "msg_unsupported_prefix =
     [0x4E0D, 0x652F, 0x6301, 0x7684, 0x6587, 0x4EF6, 0x7C7B, 0x578B, 0x3A, 0x20]"

definition msg_unknown :: jsstring where
  "msg_unknown = [0x672A, 0x77E5]"

definition msg_no_text :: jsstring where
  "msg_no_text =
     [0x672A, 0x80FD, 0x63D0, 0x53D6, 0x6709, 0x6548, 0x6587, 0x672C, 0x3002, 0x6587,
      0x4EF6, 0x53EF, 0x80FD, 0x662F, 0x626B, 0x63CF, 0x56FE, 0x50CF, 0x3001, 0x7A7A,
      0x6587, 0x4EF6, 0x6216, 0x5DF2, 0x635F, 0x574F, 0x3002]"

definition msg_parse_failed :: jsstring where
  "msg_parse_failed = [0x89E3, 0x6790, 0x5931, 0x8D25]"

definition msg_ready :: jsstring where
  "msg_ready = [0x51C6, 0x5907, 0x5C31, 0x7EEA]"

definition msg_try_ocr :: jsstring where
  "msg_try_ocr =
     [0x672A, 0x627E, 0x5230, 0x6587, 0x672C, 0xFF0C, 0x5C1D, 0x8BD5, 0x4F, 0x43, 0x52,
      0x8BC6, 0x522B, 0x2E, 0x2E, 0x2E]"

text \<open>
  \<open>withTimeout(promise, ms, errorMessage)\<close>: the promise's own outcome when it settles
  before the timer of \<open>ms\<close> milliseconds fires, and a rejection with
  \<open>new Error(errorMessage)\<close> otherwise.
\<close>

definition withTimeout :: "'a promise \<Rightarrow> nat \<Rightarrow> jsstring \<Rightarrow> error + 'a" where
  "withTimeout promise ms errorMessage =
     (case promise of
        Fulfils t res \<Rightarrow> if t < ms then Inr res else Inl (Error (Some errorMessage))
      | Rejects t err \<Rightarrow> if t < ms then Inl err else Inl (Error (Some errorMessage))
      | Pending \<Rightarrow> Inl (Error (Some errorMessage)))"

subsection \<open>Papers and files\<close>

datatype status = Parsing | Ready | Failed | Ocr

record paper =
  pid :: jsstring
  name :: jsstring
  status :: status
  content :: "jsstring option"
  message :: "jsstring option"
  progress :: "nat option"

text \<open>
  A \<open>File\<close> of the browser: its name and declared type, and what each way of reading
  it does when started on it (\<open>file.text()\<close>, \<open>parseDocx(file)\<close>, \<open>parsePdf(file)\<close>,
  \<open>ocrPdf(file, id)\<close>). The logger of \<open>ocrPdf\<close> writes only the \<open>message\<close> and the
  \<open>progress\<close> of the paper while recognition runs; these passing updates are left out.
\<close>

record jsfile =
  file_name :: jsstring
  file_type :: jsstring
  text_promise :: "jsstring promise"
  docx_promise :: "jsstring promise"
  pdf_promise :: "jsstring promise"
  ocr_promise :: "jsstring promise"

datatype operation = ReadText | ParseDocx | ParsePdf | OcrPdf

text \<open>One attempt: the operation started, the file it was started on, its timeout.\<close>

type_synonym attempt = "operation \<times> jsfile \<times> nat"

text \<open>The state a run threads through: the \<open>papers\<close> of the component and the attempts made.\<close>

record run_state =
  papers :: "paper list"
  attempts :: "attempt list"

text \<open>\<open>setPapers(prev => prev.map(p => p.id === id ? upd(p) : p))\<close>.\<close>

definition setPapers_where :: "jsstring \<Rightarrow> (paper \<Rightarrow> paper) \<Rightarrow> run_state \<Rightarrow> run_state" where
  "setPapers_where i upd st =
     st\<lparr>papers := map (\<lambda>p. if pid p = i then upd p else p) (papers st)\<rparr>"

definition started :: "operation \<Rightarrow> jsfile \<Rightarrow> nat \<Rightarrow> run_state \<Rightarrow> run_state" where
  "started opn f ms st = st\<lparr>attempts := attempts st @ [(opn, f, ms)]\<rparr>"

definition docx_mime :: jsstring where
  "docx_mime = js ''application/vnd.openxmlformats-officedocument.wordprocessingml.document''"

definition unsupported_message :: "jsfile \<Rightarrow> jsstring" where
  "unsupported_message f =
     msg_unsupported_prefix @ (if file_type f = [] then msg_unknown else file_type f)"

text \<open>
  Lines 143 to 165, the dispatch on the declared type inside \<open>try\<close>: the content read,
  or the value thrown.
\<close>

definition extract_content :: "paper \<Rightarrow> jsfile \<Rightarrow> run_state \<Rightarrow> run_state \<times> (error + jsstring)" where
  "extract_content pap f st =
     (if file_type f = js ''text/plain'' then
        (started ReadText f PARSING_TIMEOUT st,
         withTimeout (text_promise f) PARSING_TIMEOUT msg_timeout_default)
      else if file_type f = docx_mime \<or> endsWith (file_name f) (js ''.docx'') then
        (started ParseDocx f PARSING_TIMEOUT st,
         withTimeout (docx_promise f) PARSING_TIMEOUT msg_timeout_default)
      else if file_type f = js ''application/pdf'' then
        (case withTimeout (pdf_promise f) PARSING_TIMEOUT msg_pdf_timeout of
           Inl e \<Rightarrow> (started ParsePdf f PARSING_TIMEOUT st, Inl e)
         | Inr textContent \<Rightarrow>
             if length (trim textContent) < 100 then
               (started OcrPdf f OCR_TIMEOUT
                  (setPapers_where (pid pap)
                     (\<lambda>p. p\<lparr>status := Ocr, message := Some msg_try_ocr, progress := Some 0\<rparr>)
                     (started ParsePdf f PARSING_TIMEOUT st)),
                withTimeout (ocr_promise f) OCR_TIMEOUT msg_ocr_timeout)
             else (started ParsePdf f PARSING_TIMEOUT st, Inr textContent))
      else (st, Inl (Error (Some (unsupported_message f)))))"

text \<open>Lines 167 to 169: the check for minimal content after all attempts.\<close>

definition check_content :: "error + jsstring \<Rightarrow> error + jsstring" where
  "check_content r =
     (case r of
        Inl e \<Rightarrow> Inl e
      | Inr c \<Rightarrow> if c = [] \<or> length (trim c) < 100 then Inl (Error (Some msg_no_text))
                 else Inr c)"

text \<open>\<open>e.message || fallback\<close>.\<close>

definition message_or :: "error \<Rightarrow> jsstring \<Rightarrow> jsstring" where
  "message_or e fallback =
     (case message_of e of None \<Rightarrow> fallback | Some m \<Rightarrow> if m = [] then fallback else m)"

text \<open>Lines 142 to 175: one \<open>try\<close>/\<open>catch\<close> for one paper and the file found for it.\<close>

definition process_file :: "paper \<Rightarrow> jsfile \<Rightarrow> run_state \<Rightarrow> run_state" where
  "process_file pap f st =
     (case extract_content pap f st of
        (st', r) \<Rightarrow>
          (case check_content r of
             Inr c \<Rightarrow>
               setPapers_where (pid pap)
                 (\<lambda>p. p\<lparr>status := Ready, content := Some c, message := Some msg_ready,
                         progress := None\<rparr>) st'
           | Inl e \<Rightarrow>
               setPapers_where (pid pap)
                 (\<lambda>p. p\<lparr>status := Failed, message := Some (message_or e msg_parse_failed),
                         progress := None\<rparr>) st'))"

text \<open>Line 139: \<open>filesToAdd.find(f => paper.id.startsWith(f.name))\<close>.\<close>

definition file_for :: "jsfile list \<Rightarrow> paper \<Rightarrow> jsfile option" where
  "file_for filesToAdd pap = find (\<lambda>f. startsWith (pid pap) (file_name f)) filesToAdd"

text \<open>Lines 137 to 181: the loop over the new papers.\<close>

fun process_loop :: "jsfile list \<Rightarrow> paper list \<Rightarrow> run_state \<Rightarrow> run_state" where
  "process_loop filesToAdd [] st = st"
| "process_loop filesToAdd (pap # rest) st =
     (case file_for filesToAdd pap of
        None \<Rightarrow> process_loop filesToAdd rest st
      | Some f \<Rightarrow> process_loop filesToAdd rest (process_file pap f st))"

text \<open>
  Lines 129 to 133: one new paper per accepted file. \<open>now k\<close> is what the \<open>k\<close>-th call
  of \<open>Date.now()\<close> of this run returns.
\<close>

definition new_paper :: "(nat \<Rightarrow> nat) \<Rightarrow> nat \<times> jsfile \<Rightarrow> paper" where
  "new_paper now kf =
     (case kf of (k, f) \<Rightarrow>
        \<lparr>pid = file_name f @ js ''-'' @ decimal (now k), name = file_name f,
         status = Parsing, content = None, message = None, progress = None\<rparr>)"

definition filesToAdd_of :: "paper list \<Rightarrow> jsfile list \<Rightarrow> jsfile list" where
  "filesToAdd_of prev files = slice0 files (100 - int (length prev))"

definition newPapers_of :: "(nat \<Rightarrow> nat) \<Rightarrow> jsfile list \<Rightarrow> paper list" where
  "newPapers_of now filesToAdd = map (new_paper now) (enumerate 0 filesToAdd)"

text \<open>
  \<open>handleFileChange(files)\<close>, called with the component's \<open>papers\<close> equal to \<open>prev\<close>;
  \<open>None\<close> is the \<open>null\<close> file list. The result is the papers after the run and the
  attempts the run made, in the order they were started.
\<close>

definition handleFileChange :: "(nat \<Rightarrow> nat) \<Rightarrow> paper list \<Rightarrow> jsfile list option \<Rightarrow> run_state" where
  "handleFileChange now prev files =
     (case files of
        None \<Rightarrow> \<lparr>papers = prev, attempts = []\<rparr>
      | Some fs \<Rightarrow>
          if length fs = 0 then \<lparr>papers = prev, attempts = []\<rparr>
          else
            let filesToAdd = filesToAdd_of prev fs in
            if length filesToAdd = 0 then \<lparr>papers = prev, attempts = []\<rparr>
            else
              let newPapers = newPapers_of now filesToAdd in
              process_loop filesToAdd newPapers \<lparr>papers = prev @ newPapers, attempts = []\<rparr>)"

text \<open>\<open>removePaper\<close> and \<open>resetApp\<close>, as far as the papers go.\<close>

definition removePaper :: "jsstring \<Rightarrow> paper list \<Rightarrow> paper list" where
  "removePaper i ps = filter (\<lambda>p. pid p \<noteq> i) ps"

definition resetApp :: "paper list" where
  "resetApp = []"

subsection \<open>Observations on a run\<close>

text \<open>
  The direct extraction of a PDF under its timeout (line 150), and the attempts one
  pass over lines 143 to 165 starts for a file.
\<close>

definition direct_text :: "jsfile \<Rightarrow> error + jsstring" where
  "direct_text f = withTimeout (pdf_promise f) PARSING_TIMEOUT msg_pdf_timeout"


text \<open>
  What one pass over lines 143 to 169 yields for a file, the content or the value
  thrown, and what lines 171 and 174 then do to a paper with the processed id.
\<close>

definition result_for :: "jsfile \<Rightarrow> error + jsstring" where
  "result_for f =
     check_content
       (snd (extract_content (new_paper (\<lambda>k. 0) (0, f)) f \<lparr>papers = [], attempts = []\<rparr>))"

definition settle :: "error + jsstring \<Rightarrow> paper \<Rightarrow> paper" where
  "settle r p =
     (case r of
        Inr c \<Rightarrow> p\<lparr>status := Ready, content := Some c, message := Some msg_ready, progress := None\<rparr>
      | Inl e \<Rightarrow> p\<lparr>status := Failed, message := Some (message_or e msg_parse_failed),
                    progress := None\<rparr>)"

text \<open>The types the dispatch accepts.\<close>

definition supported :: "jsfile \<Rightarrow> bool" where
  "supported f \<longleftrightarrow>
     file_type f = js ''text/plain'' \<or> file_type f = docx_mime
     \<or> endsWith (file_name f) (js ''.docx'') \<or> file_type f = js ''application/pdf''"




text \<open>Files, papers and a clock for examples.\<close>

definition fixed_clock :: "nat \<Rightarrow> nat" where
  "fixed_clock k = 1700000000000"

definition example_text :: jsstring where
  "example_text = replicate 100 0x78"

definition report_txt :: jsfile where
  "report_txt =
     \<lparr>file_name = js ''a.txt'', file_type = js ''text/plain'',
      text_promise = Fulfils 5 example_text, docx_promise = Pending,
      pdf_promise = Pending, ocr_promise = Pending\<rparr>"

definition report_bak :: jsfile where
  "report_bak =
     \<lparr>file_name = js ''a.txt.bak'', file_type = [],
      text_promise = Fulfils 5 [], docx_promise = Pending,
      pdf_promise = Pending, ocr_promise = Pending\<rparr>"





section \<open>JSON values\<close>

text \<open>
  What \<open>JSON.parse\<close> returns. A number is given by its printed form
  \<open>String(n)\<close>, which determines it (\<open>0\<close> and \<open>-0\<close> both print as "0" and are
  the same key and the same truth value); an object is the list of its properties, each
  key once. A JavaScript value that may be \<open>undefined\<close> is a \<open>json option\<close>.
\<close>

datatype json =
    JNull
  | JBool bool
  | JNum jsstring
  | JStr jsstring
  | JArr "json list"
  | JObj "(jsstring \<times> json) list"

type_synonym jsval = "json option"

text \<open>Truthiness, as \<open>!x\<close> and \<open>||\<close> test it.\<close>

definition truthy :: "jsval \<Rightarrow> bool" where
  "truthy v =
     (case v of
        None \<Rightarrow> False
      | Some JNull \<Rightarrow> False
      | Some (JBool b) \<Rightarrow> b
      | Some (JNum n) \<Rightarrow> n \<noteq> js ''0''
      | Some (JStr s) \<Rightarrow> s \<noteq> []
      | Some (JArr xs) \<Rightarrow> True
      | Some (JObj kvs) \<Rightarrow> True)"

text \<open>
  Reading one of the properties the sources read (\<open>nodes\<close>, \<open>links\<close>, \<open>concepts\<close>,
  \<open>id\<close>, \<open>isCore\<close>, \<open>source\<close>, \<open>target\<close>, \<open>name\<close>, \<open>variables\<close>, \<open>prompt\<close>) from
  a value other than \<open>null\<close> and \<open>undefined\<close>: none of them is a built-in property of
  a string, number, boolean or array, so only an object can have it.
\<close>

definition property :: "json \<Rightarrow> jsstring \<Rightarrow> jsval" where
  "property v k = (case v of JObj kvs \<Rightarrow> map_of kvs k | _ \<Rightarrow> None)"

text \<open>
  What the service functions throw: the \<open>TypeError\<close> of the engine (reading a
  property of \<open>null\<close> or \<open>undefined\<close>, calling what is not a function) or
  \<open>new Error(message)\<close>.
\<close>

datatype failure = TypeError | Failure jsstring

definition get_prop :: "jsval \<Rightarrow> jsstring \<Rightarrow> failure + jsval" where
  "get_prop v k =
     (case v of None \<Rightarrow> Inl TypeError | Some JNull \<Rightarrow> Inl TypeError | Some o' \<Rightarrow> Inr (property o' k))"

text \<open>\<open>x.forEach(...)\<close>, \<open>x.map(...)\<close>, \<open>x.filter(...)\<close>: only an array has these methods.\<close>

definition as_array :: "jsval \<Rightarrow> failure + json list" where
  "as_array v = (case v of Some (JArr xs) \<Rightarrow> Inr xs | _ \<Rightarrow> Inl TypeError)"

text \<open>Sequencing of steps that may throw.\<close>

definition and_then :: "'x + 'a \<Rightarrow> ('a \<Rightarrow> 'x + 'b) \<Rightarrow> 'x + 'b" where
  "and_then r f = (case r of Inl e \<Rightarrow> Inl e | Inr x \<Rightarrow> f x)"

fun traverse :: "('a \<Rightarrow> 'x + 'b) \<Rightarrow> 'a list \<Rightarrow> 'x + 'b list" where
  "traverse f [] = Inr []"
| "traverse f (x # xs) =
     and_then (f x) (\<lambda>y. and_then (traverse f xs) (\<lambda>ys. Inr (y # ys)))"

text \<open>
  \<open>Map\<close> and \<open>Set\<close> compare keys with SameValueZero: primitives by value, arrays and
  objects by identity, and two values that \<open>JSON.parse\<close> created are never the same
  object. A \<open>Map\<close> is the list of its \<open>set\<close> calls in order, the last one for a key
  winning.
\<close>

definition primitive :: "jsval \<Rightarrow> bool" where
  "primitive v = (case v of Some (JArr xs) \<Rightarrow> False | Some (JObj kvs) \<Rightarrow> False | _ \<Rightarrow> True)"

definition same_value_zero :: "jsval \<Rightarrow> jsval \<Rightarrow> bool" where
  "same_value_zero a b \<longleftrightarrow> primitive a \<and> a = b"

definition map_get :: "(jsval \<times> 'v) list \<Rightarrow> jsval \<Rightarrow> 'v option" where
  "map_get m k = map_option snd (find (\<lambda>e. same_value_zero (fst e) k) (rev m))"

definition set_has :: "jsval list \<Rightarrow> jsval \<Rightarrow> bool" where
  "set_has s k = list_ex (\<lambda>x. same_value_zero x k) s"

text \<open>\<open>`${x}`\<close>: the string conversion of a value (\<open>Array.prototype.join\<close> for arrays).\<close>

fun join_comma :: "jsstring list \<Rightarrow> jsstring" where
  "join_comma [] = []"
| "join_comma [x] = x"
| "join_comma (x # y # r) = x @ js '','' @ join_comma (y # r)"

fun toString :: "json \<Rightarrow> jsstring" where
  "toString JNull = js ''null''"
| "toString (JBool b) = (if b then js ''true'' else js ''false'')"
| "toString (JNum n) = n"
| "toString (JStr s) = s"
| "toString (JArr xs) = join_comma (map (\<lambda>x. if x = JNull then [] else toString x) xs)"
| "toString (JObj kvs) = js ''[object Object]''"

definition template :: "jsval \<Rightarrow> jsstring" where
  "template v = (case v of None \<Rightarrow> js ''undefined'' | Some x \<Rightarrow> toString x)"

section \<open>services/geminiService.ts: extractCausalGraph and generateTopicSuggestions\<close>

record graph_node =
  node_id :: jsval
  isCore :: jsval
  group :: json

record concept =
  concept_id :: jsstring
  concept_name :: jsval
  children :: "graph_node list"

record graph_data =
  nodes :: "graph_node list"
  links :: "json list"

definition msg_format :: jsstring where
  "msg_format =
     js ''Failed to extract valid data from the text. The response format was incorrect.''"

text \<open>Lines 108 to 112: the \<open>set\<close> calls one concept makes.\<close>

definition concept_entries :: "json \<Rightarrow> failure + (jsval \<times> jsval) list" where
  "concept_entries concept =
     and_then (get_prop (Some concept) (js ''variables'')) (\<lambda>vs.
     and_then (as_array vs) (\<lambda>variables.
       Inr (map (\<lambda>variable. (Some variable, property concept (js ''name''))) variables)))"

text \<open>Line 117: \<open>variableToConceptMap.get(node.id) || 'Default'\<close>.\<close>

definition group_of :: "(jsval \<times> jsval) list \<Rightarrow> jsval \<Rightarrow> json" where
  "group_of variableToConceptMap i =
     (case map_get variableToConceptMap i of
        Some (Some g) \<Rightarrow> if truthy (Some g) then g else JStr (js ''Default'')
      | _ \<Rightarrow> JStr (js ''Default''))"

text \<open>Lines 114 to 118.\<close>

definition make_node :: "(jsval \<times> jsval) list \<Rightarrow> json \<Rightarrow> failure + graph_node" where
  "make_node variableToConceptMap node =
     and_then (get_prop (Some node) (js ''id'')) (\<lambda>i.
     and_then (get_prop (Some node) (js ''isCore'')) (\<lambda>c.
       Inr \<lparr>node_id = i, isCore = c, group = group_of variableToConceptMap i\<rparr>))"

text \<open>Lines 121 and 122: the filter of the links, with its short-circuit \<open>&&\<close>.\<close>

definition keep_link :: "jsval list \<Rightarrow> json \<Rightarrow> failure + bool" where
  "keep_link nodeSet link =
     and_then (get_prop (Some link) (js ''source'')) (\<lambda>s.
       if set_has nodeSet s
       then and_then (get_prop (Some link) (js ''target'')) (\<lambda>t. Inr (set_has nodeSet t))
       else Inr False)"

fun filter_links :: "jsval list \<Rightarrow> json list \<Rightarrow> failure + json list" where
  "filter_links nodeSet [] = Inr []"
| "filter_links nodeSet (link # rest) =
     and_then (keep_link nodeSet link) (\<lambda>keep.
     and_then (filter_links nodeSet rest) (\<lambda>kept.
       Inr (if keep then link # kept else kept)))"

text \<open>Lines 127 to 133.\<close>

definition make_concept :: "(jsval \<times> graph_node) list \<Rightarrow> nat \<times> json \<Rightarrow> failure + concept" where
  "make_concept nodeMap ic =
     (case ic of (index, concept) \<Rightarrow>
        and_then (get_prop (Some concept) (js ''name'')) (\<lambda>nm.
        and_then (get_prop (Some concept) (js ''variables'')) (\<lambda>vs.
        and_then (as_array vs) (\<lambda>variables.
          Inr \<lparr>concept_id = template nm @ js ''-'' @ decimal index,
               concept_name = nm,
               children = List.map_filter (\<lambda>variableId. map_get nodeMap (Some variableId))
                            variables\<rparr>))))"

text \<open>
  Lines 101 to 135 of \<open>extractCausalGraph\<close>, from the parsed response on (the prompt
  and the call of the model come before and do not depend on the response).
\<close>

definition extractCausalGraph :: "json \<Rightarrow> failure + graph_data \<times> concept list" where
  "extractCausalGraph extractionResponse =
     and_then (get_prop (Some extractionResponse) (js ''nodes'')) (\<lambda>responseNodes.
     and_then (get_prop (Some extractionResponse) (js ''links'')) (\<lambda>responseLinks.
     and_then (get_prop (Some extractionResponse) (js ''concepts'')) (\<lambda>responseConcepts.
       if \<not> truthy responseNodes \<or> \<not> truthy responseLinks \<or> \<not> truthy responseConcepts
       then Inl (Failure msg_format)
       else
         and_then (as_array responseConcepts) (\<lambda>cs.
         and_then (traverse concept_entries cs) (\<lambda>entries.
         and_then (as_array responseNodes) (\<lambda>ns.
         and_then (traverse (make_node (concat entries)) ns) (\<lambda>nodes.
         and_then (as_array responseLinks) (\<lambda>ls.
         and_then (filter_links (map node_id nodes) ls) (\<lambda>links.
         and_then (traverse (make_concept (map (\<lambda>node. (node_id node, node)) nodes))
                     (enumerate 0 cs)) (\<lambda>concepts.
           Inr (\<lparr>nodes = nodes, links = links\<rparr>, concepts)))))))))))"

text \<open>Lines 180 to 186 of \<open>generateTopicSuggestions\<close>, from the parsed response on.\<close>

definition isArray :: "json \<Rightarrow> bool" where
  "isArray v = (case v of JArr xs \<Rightarrow> True | _ \<Rightarrow> False)"

definition elements :: "jsval \<Rightarrow> json list" where
  "elements v = (case v of Some (JArr xs) \<Rightarrow> xs | _ \<Rightarrow> [])"

definition msg_topics :: jsstring where
  "msg_topics = js ''Failed to generate valid topic suggestions.''"

definition generateTopicSuggestions :: "json \<Rightarrow> failure + json" where
  "generateTopicSuggestions topics =
     (if \<not> truthy (Some topics) \<or> \<not> isArray topics \<or> length (elements (Some topics)) = 0
      then Inl (Failure msg_topics)
      else Inr topics)"

text \<open>Responses in the shape the prompt asks for, for examples.\<close>

definition ex_node :: "string \<Rightarrow> bool \<Rightarrow> json" where
  "ex_node i c = JObj [(js ''id'', JStr (js i)), (js ''isCore'', JBool c)]"

definition ex_concept :: "string \<Rightarrow> string list \<Rightarrow> json" where
  "ex_concept n vs = JObj [(js ''name'', JStr (js n)), (js ''variables'', JArr (map (\<lambda>v. JStr (js v)) vs))]"

definition ex_link :: "string \<Rightarrow> string \<Rightarrow> json" where
  "ex_link s t = JObj [(js ''source'', JStr (js s)), (js ''target'', JStr (js t))]"

definition ex_response :: "json list \<Rightarrow> json list \<Rightarrow> json list \<Rightarrow> json" where
  "ex_response ns ls cs = JObj [(js ''nodes'', JArr ns), (js ''links'', JArr ls), (js ''concepts'', JArr cs)]"

text \<open>The test of line 103: all three fields are present and truthy.\<close>

definition fields_present :: "json \<Rightarrow> bool" where
  "fields_present r \<longleftrightarrow>
     truthy (property r (js ''nodes'')) \<and> truthy (property r (js ''links''))
     \<and> truthy (property r (js ''concepts''))"

text \<open>
  A response in the shape the prompt asks for: nodes with a string \<open>id\<close> and a boolean
  \<open>isCore\<close>, links with string \<open>source\<close> and \<open>target\<close>, concepts with a string
  \<open>name\<close> and an array of strings \<open>variables\<close>. Further properties are allowed.
\<close>

definition is_str :: "jsval \<Rightarrow> bool" where
  "is_str v = (case v of Some (JStr s) \<Rightarrow> True | _ \<Rightarrow> False)"

definition is_bool :: "jsval \<Rightarrow> bool" where
  "is_bool v = (case v of Some (JBool b) \<Rightarrow> True | _ \<Rightarrow> False)"

definition is_array_of :: "(json \<Rightarrow> bool) \<Rightarrow> jsval \<Rightarrow> bool" where
  "is_array_of P v = (case v of Some (JArr xs) \<Rightarrow> list_all P xs | _ \<Rightarrow> False)"

definition wf_node :: "json \<Rightarrow> bool" where
  "wf_node n \<longleftrightarrow> is_str (property n (js ''id'')) \<and> is_bool (property n (js ''isCore''))"

definition wf_link :: "json \<Rightarrow> bool" where
  "wf_link l \<longleftrightarrow> is_str (property l (js ''source'')) \<and> is_str (property l (js ''target''))"

definition wf_concept :: "json \<Rightarrow> bool" where
  "wf_concept c \<longleftrightarrow>
     is_str (property c (js ''name''))
     \<and> is_array_of (\<lambda>v. is_str (Some v)) (property c (js ''variables''))"

definition wf_response :: "json \<Rightarrow> bool" where
  "wf_response r \<longleftrightarrow>
     is_array_of wf_node (property r (js ''nodes''))
     \<and> is_array_of wf_link (property r (js ''links''))
     \<and> is_array_of wf_concept (property r (js ''concepts''))"

text \<open>The concept lists the id among its \<open>variables\<close>.\<close>

definition lists_variable :: "json \<Rightarrow> jsval \<Rightarrow> bool" where
  "lists_variable c i \<longleftrightarrow> i \<in> Some ` set (elements (property c (js ''variables'')))"


section \<open>components/ClusterPanel.tsx: handleAddConcept\<close>


section \<open>services/geminiService.ts: parseJsonResponse\<close>

text \<open>
  The regular expression of line 32 is the fence \<open>```json\<close>, \<open>\s*\<close>, the lazy group
  \<open>([\s\S]*?)\<close>, \<open>\s*\<close> and the closing fence. It is modelled as the backtracking
  matcher it denotes, each piece taking the matcher of what follows it: a greedy
  \<open>\s*\<close> tries the longest run of white space first and gives characters back, the
  lazy group tries the shortest capture first, and \<open>match\<close> takes the leftmost start
  that succeeds.
\<close>

definition fence :: jsstring where
  "fence = [0x60, 0x60, 0x60]"

definition fence_json :: jsstring where
  "fence_json = fence @ js ''json''"

text \<open>A literal piece of the pattern.\<close>

definition literal :: "jsstring \<Rightarrow> (jsstring \<Rightarrow> 'a option) \<Rightarrow> jsstring \<Rightarrow> 'a option" where
  "literal p k s = (if prefix p s then k (drop (length p) s) else None)"

text \<open>\<open>\s*\<close>, greedy.\<close>

fun star_space :: "(jsstring \<Rightarrow> 'a option) \<Rightarrow> jsstring \<Rightarrow> 'a option" where
  "star_space k [] = k []"
| "star_space k (c # cs) =
     (if is_space c
      then (case star_space k cs of Some r \<Rightarrow> Some r | None \<Rightarrow> k (c # cs))
      else k (c # cs))"

text \<open>\<open>([\s\S]*?)\<close>, lazy; the capture comes with the result of what follows.\<close>

fun lazy_any :: "(jsstring \<Rightarrow> 'a option) \<Rightarrow> jsstring \<Rightarrow> (jsstring \<times> 'a) option" where
  "lazy_any k [] = map_option (Pair []) (k [])"
| "lazy_any k (c # cs) =
     (case k (c # cs) of
        Some r \<Rightarrow> Some ([], r)
      | None \<Rightarrow> map_option (\<lambda>capr. (c # fst capr, snd capr)) (lazy_any k cs))"

text \<open>\<open>\s*```\<close>, the end of the pattern.\<close>

definition closing :: "jsstring \<Rightarrow> unit option" where
  "closing = star_space (literal fence (\<lambda>rest. Some ()))"

text \<open>The whole pattern at the start of a text: capture group 1 when it matches there.\<close>

definition match_at :: "jsstring \<Rightarrow> jsstring option" where
  "match_at s = map_option fst (literal fence_json (star_space (lazy_any closing)) s)"

text \<open>\<open>rawText.match(jsonRegex)\<close>, as far as \<open>match[1]\<close> goes.\<close>

fun regex_match :: "jsstring \<Rightarrow> jsstring option" where
  "regex_match [] = match_at []"
| "regex_match (c # cs) =
     (case match_at (c # cs) of Some g \<Rightarrow> Some g | None \<Rightarrow> regex_match cs)"

definition msg_not_json :: jsstring where
  "msg_not_json = js ''Response is not valid JSON, even after attempting to clean it.''"

text \<open>
  Lines 26 to 43. \<open>JSON.parse\<close> is a parameter: it returns the value or throws. An empty
  capture is falsy, so \<open>match && match[1]\<close> fails on it.
\<close>

definition parseJsonResponse :: "(jsstring \<Rightarrow> error + json) \<Rightarrow> jsstring \<Rightarrow> failure + json" where
  "parseJsonResponse parse rawText =
     (case parse rawText of
        Inr v \<Rightarrow> Inr v
      | Inl e \<Rightarrow>
          (case regex_match rawText of
             None \<Rightarrow> Inl (Failure msg_not_json)
           | Some m1 \<Rightarrow>
               if m1 \<noteq> [] then
                 (case parse m1 of
                    Inr v \<Rightarrow> Inr v
                  | Inl innerError \<Rightarrow> Inl (Failure msg_not_json))
               else Inl (Failure msg_not_json)))"

text \<open>
  What the claim speaks of, in its words: the block that starts at the first
  \<open>```json\<close> and ends at the next \<open>```\<close>, and its inner content, the text between the
  two without the white space around it.
\<close>

fun after_first :: "jsstring \<Rightarrow> jsstring \<Rightarrow> jsstring option" where
  "after_first p [] = (if p = [] then Some [] else None)"
| "after_first p (c # cs) =
     (if prefix p (c # cs) then Some (drop (length p) (c # cs)) else after_first p cs)"

fun before_first :: "jsstring \<Rightarrow> jsstring \<Rightarrow> jsstring option" where
  "before_first p [] = (if p = [] then Some [] else None)"
| "before_first p (c # cs) =
     (if prefix p (c # cs) then Some [] else map_option ((#) c) (before_first p cs))"

definition first_block :: "jsstring \<Rightarrow> jsstring option" where
  "first_block rawText =
     (case after_first fence_json rawText of
        None \<Rightarrow> None
      | Some rest \<Rightarrow> map_option trim (before_first fence rest))"

text \<open>Removing trailing white space, the second half of \<open>trim\<close>.\<close>

definition strip_end :: "jsstring \<Rightarrow> jsstring" where
  "strip_end s = rev (dropWhile is_space (rev s))"

section \<open>netlify/functions/gemini-proxy.js: handler\<close>


text \<open>
  A response of the upstream, as far as the handler reads it: the status, which decides
  \<open>response.ok\<close>, and what \<open>response.text()\<close> and \<open>response.json()\<close> do.
\<close>

record response =
  resp_status :: nat
  resp_text :: "error + jsstring"
  resp_json :: "error + json"










text \<open>
  Stand-ins for the platform in examples: \<open>JSON.parse\<close> on the two texts "{}" and "2"
  (it rejects every other text the examples give it), and an upstream that answers 200
  with an empty object.
\<close>

definition parse_stub :: "jsstring \<Rightarrow> error + json" where
  "parse_stub s =
     (if s = js ''{}'' then Inr (JObj [])
      else if s = js ''2'' then Inr (JNum (js ''2''))
      else Inl (Error (Some (js ''Unexpected token''))))"



section \<open>Example responses\<close>

definition bad_concept_response :: json where
  "bad_concept_response = ex_response [] [] [JObj []]"

definition small_response :: json where
  "small_response =
     ex_response [ex_node ''x'' True, ex_node ''y'' False]
       [ex_link ''x'' ''y'', ex_link ''x'' ''z'']
       [ex_concept ''A'' [''x''], ex_concept ''B'' [''y'', ''q'']]"

definition unnamed_concept_response :: json where
  "unnamed_concept_response =
     ex_response [ex_node ''x'' True] [] [ex_concept '''' [''x'']]"


text \<open>
  A response with two fenced blocks, the first one cut short.
\<close>

definition two_blocks :: jsstring where
  "two_blocks = fence_json @ js '' [1 '' @ fence @ js '' '' @ fence_json @ js '' 2 '' @ fence"

section \<open>Properties of detectDominantLanguage\<close>

lemma count_loop_totals:
  "count_loop texts (e, z) = (e + latin_total texts, z + cjk_total texts)"
  by (induction texts arbitrary: e z)
     (simp_all add: latin_total_def cjk_total_def match_count_def)

text \<open>
  Claim C10. For every list of texts, detectDominantLanguage answers 'en' when the
  Latin letters and the CJK characters (U+4E00 to U+9FA5) of all texts together are
  fewer than 100; otherwise it answers 'zh' exactly when there are strictly more CJK
  characters than Latin letters, and 'en' otherwise, so a tie is 'en'. The function is
  total: the empty list and empty strings are covered by the same equation.
\<close>

theorem detectDominantLanguage_spec:
  "detectDominantLanguage texts =
     (if latin_total texts + cjk_total texts < 100 then En
      else if cjk_total texts > latin_total texts then Zh else En)"
  by (simp add: detectDominantLanguage_def count_loop_totals)

section \<open>Properties of the file-ingestion pipeline\<close>

lemma length_setPapers_where [simp]:
  "length (papers (setPapers_where i upd st)) = length (papers st)"
  by (simp add: setPapers_where_def)

lemma attempts_setPapers_where [simp]:
  "attempts (setPapers_where i upd st) = attempts st"
  by (simp add: setPapers_where_def)

lemma papers_started [simp]: "papers (started opn f ms st) = papers st"
  by (simp add: started_def)

lemma attempts_started [simp]:
  "attempts (started opn f ms st) = attempts st @ [(opn, f, ms)]"
  by (simp add: started_def)

lemma length_extract_content:
  "length (papers (fst (extract_content pap f st))) = length (papers st)"
  by (simp add: extract_content_def split: sum.splits)

lemma length_process_file [simp]:
  "length (papers (process_file pap f st)) = length (papers st)"
  using length_extract_content [of pap f st]
  by (cases "extract_content pap f st") (simp add: process_file_def split: sum.splits)

lemma length_process_loop [simp]:
  "length (papers (process_loop fs ps st)) = length (papers st)"
  by (induction ps arbitrary: st) (simp_all split: option.splits)


lemma length_newPapers_of [simp]: "length (newPapers_of now fs) = length fs"
  by (simp add: newPapers_of_def)








lemma js_types_distinct [simp]:
  "js ''text/plain'' \<noteq> js ''application/pdf''"
  "js ''application/pdf'' \<noteq> js ''text/plain''"
  "js ''application/pdf'' \<noteq> docx_mime"
  "docx_mime \<noteq> js ''application/pdf''"
  by (simp_all add: js_def docx_mime_def)

lemma example_text_long: "example_text \<noteq> []" "length (trim example_text) = 100"
  by (simp_all add: example_text_def trim_def is_space_def)

lemma plain_not_docx:
  "js ''text/plain'' \<noteq> docx_mime" "docx_mime \<noteq> js ''text/plain''"
  by (simp_all add: js_def docx_mime_def)

lemma snd_extract_content:
  "check_content (snd (extract_content pap f st)) = result_for f"
  by (simp add: result_for_def extract_content_def split: sum.splits)

lemma papers_extract_content:
  "papers (fst (extract_content pap f st)) = papers st
   \<or> papers (fst (extract_content pap f st))
      = map (\<lambda>p. if pid p = pid pap
                 then p\<lparr>status := Ocr, message := Some msg_try_ocr, progress := Some 0\<rparr> else p)
          (papers st)"
  by (simp add: extract_content_def setPapers_where_def split: sum.splits)

lemma settle_after_ocr:
  "settle r (p\<lparr>status := Ocr, message := Some msg_try_ocr, progress := Some 0\<rparr>) = settle r p"
  by (cases r) (simp_all add: settle_def)

lemma settle_twice: "settle r (settle r p) = settle r p"
  by (cases r) (simp_all add: settle_def)

lemma pid_settle [simp]: "pid (settle r p) = pid p"
  by (cases r) (simp_all add: settle_def)

lemma process_file_settle:
  "papers (process_file pap f st)
     = map (\<lambda>p. if pid p = pid pap then settle (result_for f) p else p) (papers st)"
proof -
  obtain st' r where e: "extract_content pap f st = (st', r)" by (cases "extract_content pap f st")
  have c: "check_content r = result_for f"
    using snd_extract_content [of pap f st] by (simp add: e)
  have p: "papers (process_file pap f st)
         = map (\<lambda>p. if pid p = pid pap then settle (result_for f) p else p) (papers st')"
    by (cases "result_for f") (simp_all add: process_file_def e c setPapers_where_def settle_def)
  from papers_extract_content [of pap f st]
  consider (same) "papers st' = papers st"
    | (ocr) "papers st' = map (\<lambda>p. if pid p = pid pap
                 then p\<lparr>status := Ocr, message := Some msg_try_ocr, progress := Some 0\<rparr> else p)
          (papers st)"
    by (auto simp: e)
  then show ?thesis
  proof cases
    case same
    with p show ?thesis by simp
  next
    case ocr
    with p show ?thesis by (simp add: settle_after_ocr cong: if_cong)
  qed
qed

lemma file_for_pid: "pid p = pid q \<Longrightarrow> file_for F p = file_for F q"
  by (simp add: file_for_def)

lemma process_loop_settle:
  "papers (process_loop F ps st)
     = map (\<lambda>p. if pid p \<in> pid ` set ps
                then (case file_for F p of None \<Rightarrow> p | Some f \<Rightarrow> settle (result_for f) p)
                else p) (papers st)"
proof (induction ps arbitrary: st)
  case Nil
  show ?case by simp
next
  case (Cons q rest)
  show ?case
  proof (cases "file_for F q")
    case None
    have "\<And>p. pid p = pid q \<Longrightarrow> file_for F p = None"
      using None file_for_pid by metis
    then show ?thesis
      using Cons None by (auto intro!: map_cong)
  next
    case (Some f)
    have s: "\<And>p. pid p = pid q \<Longrightarrow> file_for F p = Some f"
      using Some file_for_pid by metis
    have pt: "(\<lambda>p. if pid p \<in> pid ` set rest
                then (case file_for F p of None \<Rightarrow> p | Some f \<Rightarrow> settle (result_for f) p)
                else p) (if pid p = pid q then settle (result_for f) p else p)
            = (\<lambda>p. if pid p \<in> pid ` set (q # rest)
                then (case file_for F p of None \<Rightarrow> p | Some f \<Rightarrow> settle (result_for f) p)
                else p) p" for p
    proof (cases "pid p = pid q")
      case True
      then show ?thesis
        using s [of p] s [of "settle (result_for f) p"] by (simp add: settle_twice)
    next
      case False
      then show ?thesis by simp
    qed
    have "papers (process_loop F (q # rest) st)
        = map (\<lambda>p. if pid p \<in> pid ` set rest
                then (case file_for F p of None \<Rightarrow> p | Some f \<Rightarrow> settle (result_for f) p)
                else p)
            (map (\<lambda>p. if pid p = pid q then settle (result_for f) p else p) (papers st))"
      by (simp add: Some Cons process_file_settle)
    also have "\<dots> = map (\<lambda>p. if pid p \<in> pid ` set (q # rest)
                then (case file_for F p of None \<Rightarrow> p | Some f \<Rightarrow> settle (result_for f) p)
                else p) (papers st)"
      unfolding map_map comp_def by (rule map_cong [OF refl]) (rule pt)
    finally show ?thesis .
  qed
qed

lemma result_for_cases:
  "result_for f =
     check_content
       (if file_type f = js ''text/plain''
          then withTimeout (text_promise f) PARSING_TIMEOUT msg_timeout_default
        else if file_type f = docx_mime \<or> endsWith (file_name f) (js ''.docx'')
          then withTimeout (docx_promise f) PARSING_TIMEOUT msg_timeout_default
        else if file_type f = js ''application/pdf'' then
          (case direct_text f of
             Inl e \<Rightarrow> Inl e
           | Inr t \<Rightarrow> if length (trim t) < 100
                      then withTimeout (ocr_promise f) OCR_TIMEOUT msg_ocr_timeout else Inr t)
        else Inl (Error (Some (unsupported_message f))))"
  by (simp add: result_for_def extract_content_def direct_text_def split: sum.splits)

lemma result_for_ready:
  "result_for f = Inr c \<Longrightarrow> 100 \<le> length (trim c)"
  by (auto simp: result_for_cases check_content_def split: if_splits sum.splits)

lemma settle_status:
  "status (settle r p) = Ready \<longleftrightarrow> (\<exists>c. r = Inr c)"
  "status (settle r p) = Failed \<longleftrightarrow> (\<exists>e. r = Inl e)"
  "status (settle r p) = Failed \<Longrightarrow> message (settle r p) \<noteq> None \<and> message (settle r p) \<noteq> Some []"
  by (cases r; simp add: settle_def message_or_def msg_parse_failed_def split: option.splits)+

subsection \<open>The OCR fallback of the PDF branch\<close>




subsection \<open>The limit of 100 papers\<close>

text \<open>
  The other operations on the list of papers never make it longer, so a list of more
  than 100 papers is not reached from the empty one.
\<close>

lemma length_removePaper: "length (removePaper i ps) \<le> length ps"
  by (simp add: removePaper_def)

lemma length_resetApp: "length resetApp = 0"
  by (simp add: resetApp_def)




subsection \<open>The file found for a paper\<close>

text \<open>
  When every new paper finds its own file, the paper of the \<open>i\<close>-th accepted file ends
  as that file's own result settles it: ready with the content when the pass over the
  file yields content, which then has at least 100 characters after trimming, and in
  error with a message that is not empty otherwise.
\<close>

lemma papers_when_files_found:
  assumes "fs \<noteq> []" and "filesToAdd_of prev fs \<noteq> []"
      and "map (file_for (filesToAdd_of prev fs)) (newPapers_of now (filesToAdd_of prev fs))
             = map Some (filesToAdd_of prev fs)"
      and "i < length (filesToAdd_of prev fs)"
  shows "papers (handleFileChange now prev (Some fs)) ! (length prev + i)
           = settle (result_for (filesToAdd_of prev fs ! i))
               (newPapers_of now (filesToAdd_of prev fs) ! i)"
proof -
  let ?F = "filesToAdd_of prev fs"
  let ?N = "newPapers_of now ?F"
  have i: "i < length ?N" using assms(4) by simp
  have f: "file_for ?F (?N ! i) = Some (?F ! i)"
  proof -
    have "map (file_for ?F) ?N ! i = map Some ?F ! i" by (simp only: assms(3))
    then show ?thesis using i assms(4) by simp
  qed
  have "papers (handleFileChange now prev (Some fs))
          = map (\<lambda>p. if pid p \<in> pid ` set ?N
                then (case file_for ?F p of None \<Rightarrow> p | Some f \<Rightarrow> settle (result_for f) p)
                else p) (prev @ ?N)"
    using assms(1,2) by (simp add: handleFileChange_def Let_def process_loop_settle)
  then have "papers (handleFileChange now prev (Some fs)) ! (length prev + i)
          = (\<lambda>p. if pid p \<in> pid ` set ?N
                then (case file_for ?F p of None \<Rightarrow> p | Some f \<Rightarrow> settle (result_for f) p)
                else p) ((prev @ ?N) ! (length prev + i))"
    using i by (simp del: map_append)
  also have "(prev @ ?N) ! (length prev + i) = ?N ! i" by (simp add: nth_append)
  finally show ?thesis using i f by (auto simp: image_iff)
qed

text \<open>
  Claim C4 says that a file of an unsupported type ends with its paper in status
  'error', and that a paper is 'ready' only when extraction of its file produced enough
  text. Line 139 finds the file of a paper as the first accepted file whose name is a
  prefix of the paper's id. For the files "a.txt" and "a.txt.bak" uploaded together,
  the paper of "a.txt.bak" finds "a.txt": the unsupported file is never looked at and
  its paper becomes ready with the text of "a.txt".
\<close>

theorem prefix_named_file_evaluation:
  "\<not> supported report_bak
   \<and> map (\<lambda>p. (name p, status p, content p))
       (papers (handleFileChange fixed_clock [] (Some [report_txt, report_bak])))
     = [(js ''a.txt'', Ready, Some example_text), (js ''a.txt.bak'', Ready, Some example_text)]"
proof -
  have u: "\<not> supported report_bak"
    by (simp add: supported_def report_bak_def docx_mime_def endsWith_def js_def suffix_to_prefix)
  have r: "map (\<lambda>p. (name p, status p, content p))
       (papers (handleFileChange fixed_clock [] (Some [report_txt, report_bak])))
     = [(js ''a.txt'', Ready, Some example_text), (js ''a.txt.bak'', Ready, Some example_text)]"
    by (simp add: handleFileChange_def filesToAdd_of_def slice0_def newPapers_of_def
          new_paper_def file_for_def startsWith_def process_file_def extract_content_def
          check_content_def withTimeout_def setPapers_where_def started_def decimal.simps
          digit_def PARSING_TIMEOUT_def fixed_clock_def example_text_long report_txt_def report_bak_def js_def)
  from u r show ?thesis by (rule conjI)
qed

subsection \<open>Order and number of attempts\<close>




section \<open>Properties of the service functions\<close>

lemma and_then_simps [simp]:
  "and_then (Inl e) f = Inl e"
  "and_then (Inr x) f = f x"
  by (simp_all add: and_then_def)

lemma and_then_Inr_iff:
  "and_then r f = Inr y \<longleftrightarrow> (\<exists>x. r = Inr x \<and> f x = Inr y)"
  by (cases r) simp_all

lemma and_then_Inl_iff:
  "and_then r f = Inl e \<longleftrightarrow> r = Inl e \<or> (\<exists>x. r = Inr x \<and> f x = Inl e)"
  by (cases r) simp_all

lemma traverse_Inr_iff:
  "traverse f xs = Inr ys \<longleftrightarrow> list_all2 (\<lambda>x y. f x = Inr y) xs ys"
proof (induction xs arbitrary: ys)
  case Nil
  then show ?case by auto
next
  case (Cons x xs)
  show ?case
    by (cases ys) (auto simp: and_then_Inr_iff Cons.IH)
qed

lemma traverse_Inl:
  "traverse f xs = Inl e \<Longrightarrow> \<exists>x \<in> set xs. f x = Inl e"
  by (induction xs) (auto simp: and_then_Inl_iff)

lemma traverse_total:
  "(\<And>x. x \<in> set xs \<Longrightarrow> \<exists>y. f x = Inr y) \<Longrightarrow> \<exists>ys. traverse f xs = Inr ys"
proof (induction xs)
  case Nil
  show ?case by simp
next
  case (Cons x xs)
  then obtain y where "f x = Inr y" by auto
  moreover from Cons obtain ys where "traverse f xs = Inr ys" by auto
  ultimately show ?case by simp
qed

lemma as_array_Inr_iff: "as_array v = Inr xs \<longleftrightarrow> v = Some (JArr xs)"
  by (auto simp: as_array_def split: option.splits json.splits)

lemma as_array_Inl: "as_array v = Inl e \<Longrightarrow> e = TypeError"
  by (auto simp: as_array_def split: option.splits json.splits)

lemma get_prop_Inr_iff:
  "get_prop (Some v) k = Inr x \<longleftrightarrow> v \<noteq> JNull \<and> x = property v k"
  by (auto simp: get_prop_def split: json.splits)

lemma get_prop_Inl: "get_prop v k = Inl e \<Longrightarrow> e = TypeError"
  by (auto simp: get_prop_def split: option.splits json.splits)

lemma get_prop_Inl_iff: "get_prop (Some v) k = Inl e \<longleftrightarrow> v = JNull \<and> e = TypeError"
  by (auto simp: get_prop_def split: json.splits)

lemma concept_entries_Inl: "concept_entries c = Inl e \<Longrightarrow> e = TypeError"
  by (auto simp: concept_entries_def and_then_Inl_iff dest: get_prop_Inl as_array_Inl)

lemma make_node_Inl: "make_node m n = Inl e \<Longrightarrow> e = TypeError"
  by (auto simp: make_node_def and_then_Inl_iff dest: get_prop_Inl)

lemma keep_link_Inl: "keep_link s l = Inl e \<Longrightarrow> e = TypeError"
  by (auto simp: keep_link_def and_then_Inl_iff dest: get_prop_Inl split: if_splits)

lemma filter_links_Inl: "filter_links s ls = Inl e \<Longrightarrow> e = TypeError"
  by (induction ls) (auto simp: and_then_Inl_iff dest: keep_link_Inl)

lemma make_concept_Inl: "make_concept m ic = Inl e \<Longrightarrow> e = TypeError"
  by (cases ic) (auto simp: make_concept_def and_then_Inl_iff dest: get_prop_Inl as_array_Inl)

lemma extract_null: "extractCausalGraph JNull = Inl TypeError"
  by (simp add: extractCausalGraph_def get_prop_def)

lemma extract_missing:
  "r \<noteq> JNull \<Longrightarrow> \<not> fields_present r \<Longrightarrow> extractCausalGraph r = Inl (Failure msg_format)"
  by (auto simp: extractCausalGraph_def get_prop_def fields_present_def split: json.splits)

lemma extract_present_Inl:
  assumes "fields_present r" and "extractCausalGraph r = Inl e"
  shows "e = TypeError"
proof -
  have n: "r \<noteq> JNull" using assms(1) by (auto simp: fields_present_def property_def truthy_def)
  show ?thesis
    using assms n
    by (auto simp: extractCausalGraph_def and_then_Inl_iff get_prop_Inr_iff get_prop_Inl_iff
          fields_present_def
        dest!: as_array_Inl traverse_Inl filter_links_Inl
        dest: concept_entries_Inl make_node_Inl make_concept_Inl
        split: if_splits)
qed

lemma extract_Inr:
  assumes "extractCausalGraph r = Inr (g, cs)"
  shows "\<exists>ns ls rcs entries.
           property r (js ''nodes'') = Some (JArr ns)
         \<and> property r (js ''links'') = Some (JArr ls)
         \<and> property r (js ''concepts'') = Some (JArr rcs)
         \<and> traverse concept_entries rcs = Inr entries
         \<and> traverse (make_node (concat entries)) ns = Inr (nodes g)
         \<and> filter_links (map node_id (nodes g)) ls = Inr (links g)
         \<and> traverse (make_concept (map (\<lambda>node. (node_id node, node)) (nodes g)))
              (enumerate 0 rcs) = Inr cs"
  using assms
  by (auto simp: extractCausalGraph_def and_then_Inr_iff get_prop_Inr_iff as_array_Inr_iff
      split: if_splits)

lemma is_str_iff: "is_str v \<longleftrightarrow> (\<exists>s. v = Some (JStr s))"
  by (auto simp: is_str_def split: option.splits json.splits)

lemma is_bool_iff: "is_bool v \<longleftrightarrow> (\<exists>b. v = Some (JBool b))"
  by (auto simp: is_bool_def split: option.splits json.splits)

lemma is_array_of_iff: "is_array_of P v \<longleftrightarrow> (\<exists>xs. v = Some (JArr xs) \<and> (\<forall>x \<in> set xs. P x))"
  by (auto simp: is_array_of_def list_all_iff split: option.splits json.splits)

lemma property_Some_not_null: "property v k = Some x \<Longrightarrow> v \<noteq> JNull"
  by (auto simp: property_def)

lemma get_prop_not_null: "v \<noteq> JNull \<Longrightarrow> get_prop (Some v) k = Inr (property v k)"
  by (cases v) (simp_all add: get_prop_def)

lemma wf_concept_entries:
  assumes "wf_concept c"
  shows "concept_entries c =
           Inr (map (\<lambda>v. (Some v, property c (js ''name''))) (elements (property c (js ''variables''))))"
proof -
  from assms obtain vs where v: "property c (js ''variables'') = Some (JArr vs)"
    by (auto simp: wf_concept_def is_array_of_iff)
  then have "c \<noteq> JNull" by (rule property_Some_not_null)
  then show ?thesis
    by (simp add: concept_entries_def get_prop_not_null v as_array_def elements_def)
qed

lemma wf_make_node:
  assumes "wf_node n"
  shows "\<exists>y. make_node m n = Inr y"
proof -
  from assms have "n \<noteq> JNull"
    by (auto simp: wf_node_def is_str_iff dest: property_Some_not_null)
  then show ?thesis
    by (simp add: make_node_def get_prop_not_null)
qed

lemma wf_keep_link:
  assumes "wf_link l"
  shows "\<exists>y. keep_link s l = Inr y"
proof -
  from assms have "l \<noteq> JNull"
    by (auto simp: wf_link_def is_str_iff dest: property_Some_not_null)
  then show ?thesis
    by (auto simp: keep_link_def get_prop_not_null)
qed

lemma filter_links_total:
  "(\<And>l. l \<in> set ls \<Longrightarrow> \<exists>y. keep_link s l = Inr y) \<Longrightarrow> \<exists>ks. filter_links s ls = Inr ks"
proof (induction ls)
  case Nil
  show ?case by simp
next
  case (Cons l ls)
  then obtain y where "keep_link s l = Inr y" by auto
  moreover from Cons obtain ks where "filter_links s ls = Inr ks" by auto
  ultimately show ?case by simp
qed

lemma wf_make_concept:
  assumes "wf_concept c"
  shows "\<exists>y. make_concept m (i, c) = Inr y"
proof -
  from assms obtain vs where v: "property c (js ''variables'') = Some (JArr vs)"
    by (auto simp: wf_concept_def is_array_of_iff)
  then have "c \<noteq> JNull" by (rule property_Some_not_null)
  then show ?thesis
    by (simp add: make_concept_def get_prop_not_null v as_array_def)
qed

lemma wf_fields_present: "wf_response r \<Longrightarrow> fields_present r"
  by (auto simp: wf_response_def fields_present_def is_array_of_iff truthy_def)

lemma wf_returns:
  assumes "wf_response r"
  shows "\<exists>g cs. extractCausalGraph r = Inr (g, cs)"
proof -
  from assms obtain ns ls rcs where
    n: "property r (js ''nodes'') = Some (JArr ns)" "\<forall>x \<in> set ns. wf_node x" and
    l: "property r (js ''links'') = Some (JArr ls)" "\<forall>x \<in> set ls. wf_link x" and
    c: "property r (js ''concepts'') = Some (JArr rcs)" "\<forall>x \<in> set rcs. wf_concept x"
    by (auto simp: wf_response_def is_array_of_iff)
  have r: "r \<noteq> JNull" using n(1) by (rule property_Some_not_null)
  obtain entries where e: "traverse concept_entries rcs = Inr entries"
    using traverse_total [of rcs concept_entries] c(2) wf_concept_entries by blast
  obtain nodes where nd: "traverse (make_node (concat entries)) ns = Inr nodes"
    using traverse_total [of ns "make_node (concat entries)"] n(2) wf_make_node by blast
  obtain links where lk: "filter_links (map node_id nodes) ls = Inr links"
    using filter_links_total [of ls "map node_id nodes"] l(2) wf_keep_link by blast
  have "\<And>x. x \<in> set (enumerate 0 rcs) \<Longrightarrow>
          \<exists>y. make_concept (map (\<lambda>node. (node_id node, node)) nodes) x = Inr y"
  proof -
    fix x assume "x \<in> set (enumerate 0 rcs)"
    then have "snd x \<in> set rcs" by (metis in_set_enumerate_eq nth_mem diff_zero add.right_neutral)
    then have "wf_concept (snd x)" using c(2) by blast
    then show "\<exists>y. make_concept (map (\<lambda>node. (node_id node, node)) nodes) x = Inr y"
      using wf_make_concept [of "snd x" _ "fst x"] by simp
  qed
  then obtain cs where cc: "traverse (make_concept (map (\<lambda>node. (node_id node, node)) nodes))
                     (enumerate 0 rcs) = Inr cs"
    using traverse_total by blast
  have "extractCausalGraph r = Inr (\<lparr>nodes = nodes, links = links\<rparr>, cs)"
    using r n(1) l(1) c(1) e nd lk cc
    by (simp add: extractCausalGraph_def get_prop_not_null as_array_def truthy_def)
  then show ?thesis by blast
qed

lemma generateTopicSuggestions_cases:
  "generateTopicSuggestions t =
     (if isArray t \<and> elements (Some t) \<noteq> [] then Inr t else Inl (Failure msg_topics))"
  by (auto simp: generateTopicSuggestions_def isArray_def elements_def truthy_def split: json.splits)

lemma js_keys_distinct [simp]:
  "js ''nodes'' \<noteq> js ''links''" "js ''nodes'' \<noteq> js ''concepts''"
  "js ''links'' \<noteq> js ''nodes''" "js ''links'' \<noteq> js ''concepts''"
  "js ''concepts'' \<noteq> js ''nodes''" "js ''concepts'' \<noteq> js ''links''"
  "js ''id'' \<noteq> js ''isCore''" "js ''isCore'' \<noteq> js ''id''"
  "js ''source'' \<noteq> js ''target''" "js ''target'' \<noteq> js ''source''"
  "js ''name'' \<noteq> js ''variables''" "js ''variables'' \<noteq> js ''name''"
  by (simp_all add: js_def)

lemma wf_small_response: "wf_response small_response"
  by (simp add: small_response_def ex_response_def ex_node_def ex_link_def ex_concept_def
        wf_response_def wf_node_def wf_link_def wf_concept_def is_array_of_def is_str_def
        is_bool_def property_def)

subsection \<open>Validation of the parsed responses\<close>

text \<open>
  Claim C6 says that extractCausalGraph throws if and only if one of the three fields
  is missing from the parsed response. The test of line 103 looks at truthiness only: a
  response with all three fields present whose only concept has no \<open>variables\<close> passes
  it, and line 109 then throws a TypeError.
\<close>

theorem malformed_concept_counterexample:
  "fields_present bad_concept_response
   \<and> extractCausalGraph bad_concept_response = Inl TypeError"
  by (simp add: bad_concept_response_def ex_response_def fields_present_def property_def
        truthy_def extractCausalGraph_def get_prop_def as_array_def concept_entries_def)

text \<open>
  Claim C6, as amended. generateTopicSuggestions throws if and only if the parsed
  response is not a non-empty array, and returns that array otherwise.
  extractCausalGraph throws its format error if and only if the parsed response is not
  null and one of its fields nodes, links, concepts is missing or falsy; it throws
  whenever a field is missing or falsy; with all three fields present the only thing it
  can still throw is a TypeError, on a field of the wrong shape; and for a response in
  the shape the prompt asks for it returns a result.
\<close>

theorem response_checks:
  "generateTopicSuggestions t =
     (if isArray t \<and> elements (Some t) \<noteq> [] then Inr t else Inl (Failure msg_topics))
   \<and> (extractCausalGraph r = Inl (Failure msg_format) \<longleftrightarrow> r \<noteq> JNull \<and> \<not> fields_present r)
   \<and> (\<not> fields_present r \<longrightarrow> (\<exists>e. extractCausalGraph r = Inl e))
   \<and> (fields_present r \<longrightarrow> (\<forall>e. extractCausalGraph r = Inl e \<longrightarrow> e = TypeError))
   \<and> (wf_response r \<longrightarrow> (\<exists>g cs. extractCausalGraph r = Inr (g, cs)))"
proof -
  have 2: "extractCausalGraph r = Inl (Failure msg_format) \<longleftrightarrow> r \<noteq> JNull \<and> \<not> fields_present r"
  proof
    assume a: "extractCausalGraph r = Inl (Failure msg_format)"
    have "r \<noteq> JNull" using a extract_null by auto
    moreover have "\<not> fields_present r" using a extract_present_Inl by blast
    ultimately show "r \<noteq> JNull \<and> \<not> fields_present r" by simp
  next
    assume "r \<noteq> JNull \<and> \<not> fields_present r"
    then show "extractCausalGraph r = Inl (Failure msg_format)" by (simp add: extract_missing)
  qed
  have 3: "\<not> fields_present r \<longrightarrow> (\<exists>e. extractCausalGraph r = Inl e)"
    using extract_null extract_missing by (cases "r = JNull") auto
  have 4: "fields_present r \<longrightarrow> (\<forall>e. extractCausalGraph r = Inl e \<longrightarrow> e = TypeError)"
    using extract_present_Inl by blast
  have 5: "wf_response r \<longrightarrow> (\<exists>g cs. extractCausalGraph r = Inr (g, cs))"
    using wf_returns by blast
  from generateTopicSuggestions_cases 2 3 4 5 show ?thesis by (intro conjI)
qed

theorem response_checks_witness:
  "wf_response small_response \<and> fields_present small_response
   \<and> (\<exists>g cs. extractCausalGraph small_response = Inr (g, cs))
   \<and> \<not> fields_present (JArr [])
   \<and> extractCausalGraph (JArr []) = Inl (Failure msg_format)
   \<and> fields_present bad_concept_response
   \<and> extractCausalGraph bad_concept_response = Inl TypeError"
proof -
  note t = response_checks [of JNull small_response]
  note u = response_checks [of JNull "JArr []"]
  note v = response_checks [of JNull bad_concept_response]
  have a: "\<not> fields_present (JArr [])"
    by (simp add: fields_present_def property_def truthy_def)
  have b: "fields_present bad_concept_response"
    by (simp add: bad_concept_response_def ex_response_def fields_present_def property_def
          truthy_def)
  have "\<exists>e. extractCausalGraph bad_concept_response = Inl e"
    by (simp add: bad_concept_response_def ex_response_def property_def
        truthy_def extractCausalGraph_def get_prop_def as_array_def concept_entries_def)
  then obtain e where e: "extractCausalGraph bad_concept_response = Inl e" by blast
  from v b e have "e = TypeError" by simp
  with e have c: "extractCausalGraph bad_concept_response = Inl TypeError" by simp
  from t wf_small_response have "\<exists>g cs. extractCausalGraph small_response = Inr (g, cs)"
    by simp
  moreover from u a have "extractCausalGraph (JArr []) = Inl (Failure msg_format)"
    by simp
  ultimately show ?thesis
    using wf_small_response wf_fields_present a b c by (intro conjI) simp_all
qed

subsection \<open>What a returned result is made of\<close>

lemma same_value_zero_eq: "same_value_zero a b \<Longrightarrow> a = b"
  by (simp add: same_value_zero_def)

lemma find_Some_mem: "find P xs = Some x \<Longrightarrow> x \<in> set xs \<and> P x"
  by (induction xs) (auto split: if_splits)

lemma map_get_Some:
  assumes "map_get m k = Some v"
  shows "(k, v) \<in> set m"
proof -
  from assms obtain e where e: "find (\<lambda>e. same_value_zero (fst e) k) (rev m) = Some e" "snd e = v"
    by (auto simp: map_get_def)
  from e(1) have "e \<in> set (rev m) \<and> same_value_zero (fst e) k"
    by (rule find_Some_mem)
  then have "e \<in> set m" "fst e = k"
    by (simp_all add: same_value_zero_def)
  with e(2) show ?thesis by (cases e) simp
qed

lemma map_get_None:
  assumes "map_get m k = None" and "primitive k"
  shows "k \<notin> fst ` set m"
proof
  assume "k \<in> fst ` set m"
  then obtain e where e: "e \<in> set (rev m)" "fst e = k" by auto
  then have "same_value_zero (fst e) k"
    using assms(2) by (simp add: same_value_zero_def)
  with e(1) have "find (\<lambda>e. same_value_zero (fst e) k) (rev m) \<noteq> None"
    unfolding find_None_iff by blast
  then show False using assms(1) by (simp add: map_get_def)
qed

lemma set_has_primitive: "primitive k \<Longrightarrow> set_has s k \<longleftrightarrow> k \<in> set s"
  by (auto simp: set_has_def list_ex_iff same_value_zero_def)

lemma primitive_str [simp]: "primitive (Some (JStr s))"
  by (simp add: primitive_def)

lemma filter_links_Inr:
  "filter_links s ls = Inr ks \<Longrightarrow> ks = filter (\<lambda>l. keep_link s l = Inr True) ls"
proof (induction ls arbitrary: ks)
  case Nil
  then show ?case by simp
next
  case (Cons l ls)
  then show ?case by (auto simp: and_then_Inr_iff)
qed

lemma wf_keep_link_eq:
  assumes "wf_link l"
  shows "keep_link s l = Inr True \<longleftrightarrow>
           property l (js ''source'') \<in> set s \<and> property l (js ''target'') \<in> set s"
proof -
  from assms obtain a b where
    ab: "property l (js ''source'') = Some (JStr a)" "property l (js ''target'') = Some (JStr b)"
    by (auto simp: wf_link_def is_str_iff)
  then have "l \<noteq> JNull" by (auto dest: property_Some_not_null)
  then show ?thesis
    by (simp add: keep_link_def get_prop_not_null ab set_has_primitive)
qed

lemma make_node_Inr:
  "make_node m n = Inr y \<Longrightarrow>
     node_id y = property n (js ''id'') \<and> group y = group_of m (property n (js ''id''))"
  by (auto simp: make_node_def and_then_Inr_iff get_prop_Inr_iff)

lemma make_concept_Inr:
  "make_concept m (i, c) = Inr y \<Longrightarrow>
     concept_id y = template (property c (js ''name'')) @ js ''-'' @ decimal i
   \<and> children y = List.map_filter (\<lambda>v. map_get m (Some v)) (elements (property c (js ''variables'')))"
  by (auto simp: make_concept_def and_then_Inr_iff get_prop_Inr_iff as_array_Inr_iff elements_def)


lemma traverse_set:
  assumes "traverse f xs = Inr ys" and "y \<in> set ys"
  shows "\<exists>x \<in> set xs. f x = Inr y"
proof -
  from assms(1) have "list_all2 (\<lambda>x y. f x = Inr y) xs ys" by (simp add: traverse_Inr_iff)
  then show ?thesis using assms(2)
    by (induction rule: list_all2_induct) auto
qed

lemma in_set_map_filter:
  "y \<in> set (List.map_filter f xs) \<longleftrightarrow> (\<exists>x \<in> set xs. f x = Some y)"
  by (induction xs) (auto simp: map_filter_simps split: option.splits)

lemma children_subset:
  "set (List.map_filter (\<lambda>v. map_get (map (\<lambda>node. (node_id node, node)) ns) (Some v)) vs)
     \<subseteq> set ns"
  by (auto simp: in_set_map_filter dest!: map_get_Some)

lemma traverse_set_left:
  assumes "traverse f xs = Inr ys" and "x \<in> set xs"
  shows "\<exists>y \<in> set ys. f x = Inr y"
proof -
  from assms(1) have "list_all2 (\<lambda>x y. f x = Inr y) xs ys" by (simp add: traverse_Inr_iff)
  then show ?thesis using assms(2)
    by (induction rule: list_all2_induct) auto
qed

lemma concept_entries_Inr:
  assumes "concept_entries c = Inr e"
  shows "e = map (\<lambda>v. (Some v, property c (js ''name''))) (elements (property c (js ''variables'')))"
proof -
  from assms obtain vs xs where
    "get_prop (Some c) (js ''variables'') = Inr vs" "as_array vs = Inr xs"
    "e = map (\<lambda>v. (Some v, property c (js ''name''))) xs"
    unfolding concept_entries_def and_then_Inr_iff by auto
  then show ?thesis
    by (simp add: get_prop_Inr_iff as_array_Inr_iff elements_def)
qed

lemma entries_member:
  assumes "traverse concept_entries rcs = Inr entries"
      and "(k, v) \<in> set (concat entries)"
  shows "\<exists>c \<in> set rcs. lists_variable c k \<and> property c (js ''name'') = v"
proof -
  from assms(2) obtain e where e: "e \<in> set entries" "(k, v) \<in> set e" by auto
  from traverse_set [OF assms(1) e(1)]
  obtain c where c: "c \<in> set rcs" "concept_entries c = Inr e" by auto
  have "(k, v) \<in> set (map (\<lambda>v. (Some v, property c (js ''name'')))
                       (elements (property c (js ''variables''))))"
    using e(2) concept_entries_Inr [OF c(2)] by simp
  then have "lists_variable c k \<and> property c (js ''name'') = v"
    by (auto simp: lists_variable_def)
  with c(1) show ?thesis by blast
qed

lemma entries_listed:
  assumes "traverse concept_entries rcs = Inr entries"
      and "c \<in> set rcs" and "lists_variable c k"
  shows "k \<in> fst ` set (concat entries)"
proof -
  from traverse_set_left [OF assms(1,2)]
  obtain e where e: "e \<in> set entries" "concept_entries c = Inr e" by auto
  from assms(3) have "k \<in> fst ` set (map (\<lambda>v. (Some v, property c (js ''name'')))
                       (elements (property c (js ''variables''))))"
    by (force simp: lists_variable_def)
  then have "k \<in> fst ` set e"
    using concept_entries_Inr [OF e(2)] by simp
  with e(1) show ?thesis by auto
qed

lemma group_of_cases:
  assumes "traverse concept_entries rcs = Inr entries"
      and "is_str k"
      and "\<forall>c \<in> set rcs. is_str (property c (js ''name''))"
  shows "(\<exists>c \<in> set rcs. lists_variable c k
            \<and> property c (js ''name'') = Some (group_of (concat entries) k))
       \<or> (group_of (concat entries) k = JStr (js ''Default'')
          \<and> ((\<forall>c \<in> set rcs. \<not> lists_variable c k)
             \<or> (\<exists>c \<in> set rcs. lists_variable c k \<and> property c (js ''name'') = Some (JStr []))))"
proof (cases "map_get (concat entries) k")
  case None
  have "primitive k" using assms(2) by (auto simp: is_str_iff)
  with None have "k \<notin> fst ` set (concat entries)" by (rule map_get_None)
  then have "\<forall>c \<in> set rcs. \<not> lists_variable c k"
    using entries_listed [OF assms(1)] by blast
  moreover have "group_of (concat entries) k = JStr (js ''Default'')"
    by (simp add: group_of_def None)
  ultimately show ?thesis by blast
next
  case (Some v)
  then have "(k, v) \<in> set (concat entries)" by (rule map_get_Some)
  from entries_member [OF assms(1) this]
  obtain c where c: "c \<in> set rcs" "lists_variable c k" "property c (js ''name'') = v" by auto
  with assms(3) obtain s where s: "v = Some (JStr s)" by (auto simp: is_str_iff)
  show ?thesis
  proof (cases "s = []")
    case True
    then have "group_of (concat entries) k = JStr (js ''Default'')"
      by (simp add: group_of_def Some s truthy_def)
    with c s True show ?thesis by blast
  next
    case False
    then have "group_of (concat entries) k = JStr s"
      by (simp add: group_of_def Some s truthy_def)
    with c s show ?thesis by auto
  qed
qed

subsection \<open>Referential integrity of the returned graph\<close>

text \<open>
  Claim C8 says that every node's group is the name of a response concept listing the
  node's id, or 'Default' if none does. Line 117 falls back to 'Default' with
  \<open>||\<close>, which also replaces an empty name: for a response whose only concept has the
  name "" and lists the node "x", the group of "x" is 'Default', although a concept
  lists it and no concept listing it is called 'Default'.
\<close>

theorem empty_concept_name_counterexample:
  "wf_response unnamed_concept_response
   \<and> extractCausalGraph unnamed_concept_response =
       Inr (\<lparr>nodes = [\<lparr>node_id = Some (JStr (js ''x'')), isCore = Some (JBool True),
                       group = JStr (js ''Default'')\<rparr>],
             links = []\<rparr>,
            [\<lparr>concept_id = js ''-0'', concept_name = Some (JStr []),
              children = [\<lparr>node_id = Some (JStr (js ''x'')), isCore = Some (JBool True),
                           group = JStr (js ''Default'')\<rparr>]\<rparr>])
   \<and> lists_variable (ex_concept '''' [''x'']) (Some (JStr (js ''x'')))
   \<and> property (ex_concept '''' [''x'']) (js ''name'') \<noteq> Some (JStr (js ''Default''))"
  by (simp add: unnamed_concept_response_def ex_response_def ex_node_def ex_concept_def
        wf_response_def wf_node_def wf_link_def wf_concept_def is_array_of_def is_str_def
        is_bool_def property_def extractCausalGraph_def get_prop_def as_array_def truthy_def
        concept_entries_def make_node_def group_of_def map_get_def same_value_zero_def
        primitive_def make_concept_def template_def decimal.simps digit_def
        map_filter_simps lists_variable_def elements_def js_def)

text \<open>
  Claim C8, as amended. For every response in the shape the prompt asks for,
  extractCausalGraph returns a graph and concepts such that: the links are exactly the
  response links whose source and target are both ids of returned nodes, the others
  being dropped, so every returned link has both ends among the node ids; every node's
  group is the name of a response concept listing the node's id, or it is 'Default' and
  then either no concept lists the id or a concept listing it has the empty name; and
  every child of every returned concept is a node of the graph.
\<close>

theorem referential_integrity:
  assumes "wf_response r"
  shows "\<exists>g cs. extractCausalGraph r = Inr (g, cs)
     \<and> links g = filter (\<lambda>l. property l (js ''source'') \<in> node_id ` set (nodes g)
                           \<and> property l (js ''target'') \<in> node_id ` set (nodes g))
                   (elements (property r (js ''links'')))
     \<and> (\<forall>l \<in> set (links g). \<exists>n \<in> set (nodes g). \<exists>m \<in> set (nodes g).
           property l (js ''source'') = node_id n \<and> property l (js ''target'') = node_id m)
     \<and> (\<forall>n \<in> set (nodes g).
           (\<exists>c \<in> set (elements (property r (js ''concepts''))).
               lists_variable c (node_id n) \<and> property c (js ''name'') = Some (group n))
         \<or> (group n = JStr (js ''Default'')
            \<and> ((\<forall>c \<in> set (elements (property r (js ''concepts''))). \<not> lists_variable c (node_id n))
               \<or> (\<exists>c \<in> set (elements (property r (js ''concepts''))).
                     lists_variable c (node_id n) \<and> property c (js ''name'') = Some (JStr [])))))
     \<and> (\<forall>c \<in> set cs. set (children c) \<subseteq> set (nodes g))"
proof -
  from wf_returns [OF assms] obtain g cs where ret: "extractCausalGraph r = Inr (g, cs)"
    by blast
  from extract_Inr [OF ret] obtain ns ls rcs entries where
    pn: "property r (js ''nodes'') = Some (JArr ns)" and
    pl: "property r (js ''links'') = Some (JArr ls)" and
    pc: "property r (js ''concepts'') = Some (JArr rcs)" and
    te: "traverse concept_entries rcs = Inr entries" and
    tn: "traverse (make_node (concat entries)) ns = Inr (nodes g)" and
    fl: "filter_links (map node_id (nodes g)) ls = Inr (links g)" and
    tc: "traverse (make_concept (map (\<lambda>node. (node_id node, node)) (nodes g)))
              (enumerate 0 rcs) = Inr cs"
    by blast
  from assms pn pl pc have
    wn: "\<forall>x \<in> set ns. wf_node x" and wl: "\<forall>x \<in> set ls. wf_link x" and
    wc: "\<forall>x \<in> set rcs. wf_concept x"
    by (auto simp: wf_response_def is_array_of_iff)
  have L: "links g = filter (\<lambda>l. property l (js ''source'') \<in> node_id ` set (nodes g)
                           \<and> property l (js ''target'') \<in> node_id ` set (nodes g)) ls"
  proof -
    have "links g = filter (\<lambda>l. keep_link (map node_id (nodes g)) l = Inr True) ls"
      using fl by (rule filter_links_Inr)
    also have "\<dots> = filter (\<lambda>l. property l (js ''source'') \<in> node_id ` set (nodes g)
                           \<and> property l (js ''target'') \<in> node_id ` set (nodes g)) ls"
      using wl by (intro filter_cong refl) (simp add: wf_keep_link_eq)
    finally show ?thesis .
  qed
  have L2: "\<forall>l \<in> set (links g). \<exists>n \<in> set (nodes g). \<exists>m \<in> set (nodes g).
           property l (js ''source'') = node_id n \<and> property l (js ''target'') = node_id m"
    unfolding L by auto
  have G: "(\<exists>c \<in> set rcs. lists_variable c (node_id n)
              \<and> property c (js ''name'') = Some (group n))
         \<or> (group n = JStr (js ''Default'')
            \<and> ((\<forall>c \<in> set rcs. \<not> lists_variable c (node_id n))
               \<or> (\<exists>c \<in> set rcs. lists_variable c (node_id n)
                     \<and> property c (js ''name'') = Some (JStr []))))"
    if n: "n \<in> set (nodes g)" for n
  proof -
    from traverse_set [OF tn n] obtain x where
      x: "x \<in> set ns" "make_node (concat entries) x = Inr n" by auto
    from make_node_Inr [OF x(2)] have
      i: "node_id n = property x (js ''id'')" and
      gr: "group n = group_of (concat entries) (node_id n)" by simp_all
    have s: "is_str (node_id n)" using wn x(1) i by (simp add: wf_node_def)
    have nm: "\<forall>c \<in> set rcs. is_str (property c (js ''name''))"
      using wc by (simp add: wf_concept_def)
    from group_of_cases [OF te s nm] show ?thesis by (simp add: gr [symmetric])
  qed
  have C: "\<forall>c \<in> set cs. set (children c) \<subseteq> set (nodes g)"
  proof
    fix c assume "c \<in> set cs"
    from traverse_set [OF tc this] obtain ic where
      ic: "make_concept (map (\<lambda>node. (node_id node, node)) (nodes g)) ic = Inr c" by auto
    obtain i x where "ic = (i, x)" by (cases ic)
    with ic have "children c = List.map_filter
        (\<lambda>v. map_get (map (\<lambda>node. (node_id node, node)) (nodes g)) (Some v))
        (elements (property x (js ''variables'')))"
      using make_concept_Inr by blast
    then show "set (children c) \<subseteq> set (nodes g)"
      by (simp add: children_subset)
  qed
  have el: "elements (property r (js ''links'')) = ls"
           "elements (property r (js ''concepts'')) = rcs"
    by (simp_all add: pl pc elements_def)
  show ?thesis
    using ret L L2 G C unfolding el by blast
qed

theorem referential_integrity_witness:
  "wf_response small_response
   \<and> (\<exists>g cs. extractCausalGraph small_response = Inr (g, cs)
        \<and> (\<forall>c \<in> set cs. set (children c) \<subseteq> set (nodes g)))"
proof -
  from referential_integrity [OF wf_small_response]
  have "\<exists>g cs. extractCausalGraph small_response = Inr (g, cs)
        \<and> (\<forall>c \<in> set cs. set (children c) \<subseteq> set (nodes g))"
    by blast
  with wf_small_response show ?thesis by (rule conjI)
qed

subsection \<open>Identifiers\<close>















text \<open>
  Two files of the same name that get the same clock reading, as files mapped within
  one millisecond do, get the same paper id.
\<close>

lemma same_name_batch_collides:
  "map pid (newPapers_of (\<lambda>k. 1700000000000) [report_txt, report_txt\<lparr>text_promise := Pending\<rparr>])
     = [js ''a.txt-1700000000000'', js ''a.txt-1700000000000'']"
  by (simp add: newPapers_of_def new_paper_def report_txt_def decimal.simps digit_def js_def)




section \<open>Properties of the proxy handler\<close>





section \<open>Properties of parseJsonResponse\<close>

lemma not_space_tick [simp]: "\<not> is_space 0x60"
  by (simp add: is_space_def)

lemma prefix_fence_dropWhile:
  "is_space c \<Longrightarrow> \<not> prefix fence (c # cs)"
  by (auto simp: fence_def)

lemma closing_iff: "closing s = Some () \<longleftrightarrow> prefix fence (dropWhile is_space s)"
proof (induction s)
  case Nil
  show ?case by (simp add: closing_def literal_def fence_def)
next
  case (Cons c cs)
  show ?case
  proof (cases "is_space c")
    case True
    then have "literal fence (\<lambda>rest. Some ()) (c # cs) = None"
      by (simp add: literal_def prefix_fence_dropWhile)
    then show ?thesis
      using Cons True by (auto simp: closing_def split: option.splits)
  next
    case False
    then show ?thesis by (simp add: closing_def literal_def)
  qed
qed

lemma closing_None_iff: "closing s = None \<longleftrightarrow> \<not> prefix fence (dropWhile is_space s)"
  using closing_iff [of s] by (cases "closing s") auto

lemma strip_end_Cons:
  "strip_end (c # b) = (if is_space c \<and> strip_end b = [] then [] else c # strip_end b)"
  by (auto simp: strip_end_def dropWhile_append)

lemma strip_end_Nil_iff: "strip_end b = [] \<longleftrightarrow> (\<forall>x \<in> set b. is_space x)"
  by (auto simp: strip_end_def dropWhile_eq_Nil_conv)

lemma before_first_spaces:
  assumes "before_first fence s = Some b" and "\<forall>x \<in> set b. is_space x"
  shows "prefix fence (dropWhile is_space s)"
  using assms
proof (induction s arbitrary: b)
  case Nil
  then show ?case by (simp add: fence_def)
next
  case (Cons c cs)
  show ?case
  proof (cases "prefix fence (c # cs)")
    case True
    then have "\<not> is_space c" using prefix_fence_dropWhile by blast
    with True show ?thesis by simp
  next
    case False
    with Cons.prems obtain b' where b': "before_first fence cs = Some b'" "b = c # b'"
      by auto
    with Cons.prems(2) have "is_space c" "\<forall>x \<in> set b'. is_space x" by auto
    with Cons.IH [OF b'(1)] show ?thesis by simp
  qed
qed

lemma lazy_any_closing:
  "map_option fst (lazy_any closing s) = map_option strip_end (before_first fence s)"
proof (induction s)
  case Nil
  show ?case by (simp add: closing_def literal_def fence_def)
next
  case (Cons c cs)
  show ?case
  proof (cases "closing (c # cs)")
    case (Some u)
    then have p: "prefix fence (dropWhile is_space (c # cs))"
      using closing_iff [of "c # cs"] by simp
    have "\<exists>b. before_first fence (c # cs) = Some b \<and> (\<forall>x \<in> set b. is_space x)"
      using p
    proof (induction cs arbitrary: c)
      case Nil
      then show ?case by (auto simp: fence_def split: if_splits)
    next
      case (Cons d ds)
      show ?case
      proof (cases "is_space c")
        case True
        with Cons.prems have "prefix fence (dropWhile is_space (d # ds))" by simp
        from Cons.IH [OF this] obtain b where
          "before_first fence (d # ds) = Some b" "\<forall>x \<in> set b. is_space x" by blast
        with True show ?thesis by (simp add: prefix_fence_dropWhile)
      next
        case False
        with Cons.prems show ?thesis by simp
      qed
    qed
    then obtain b where bf: "before_first fence (c # cs) = Some b"
      and sp: "\<forall>x \<in> set b. is_space x"
      by blast
    have l: "lazy_any closing (c # cs) = Some ([], u)" using Some by simp
    have e: "strip_end b = []" using sp by (simp add: strip_end_Nil_iff)
    show ?thesis unfolding l bf by (simp add: e)
  next
    case None
    then have np: "\<not> prefix fence (dropWhile is_space (c # cs))"
      by (simp add: closing_None_iff)
    have nf: "\<not> prefix fence (c # cs)"
    proof
      assume a: "prefix fence (c # cs)"
      then have "\<not> is_space c" using prefix_fence_dropWhile by blast
      with a np show False by simp
    qed
    show ?thesis
    proof (cases "before_first fence cs")
      case None
      with Cons \<open>closing (c # cs) = None\<close> nf show ?thesis by simp
    next
      case (Some b)
      have "\<not> (is_space c \<and> strip_end b = [])"
      proof
        assume a: "is_space c \<and> strip_end b = []"
        then have "\<forall>x \<in> set b. is_space x" by (simp add: strip_end_Nil_iff)
        from before_first_spaces [OF Some this] a np show False by simp
      qed
      then have "strip_end (c # b) = c # strip_end b" by (simp add: strip_end_Cons)
      with Cons Some \<open>closing (c # cs) = None\<close> nf show ?thesis
        by (cases "lazy_any closing cs") auto
    qed
  qed
qed

lemma lazy_any_closing_None: "lazy_any closing s = None \<longleftrightarrow> before_first fence s = None"
  using lazy_any_closing [of s] by (metis map_option_is_None)

lemma before_first_skip_spaces:
  "before_first fence (dropWhile is_space s) = None \<Longrightarrow> before_first fence s = None"
proof (induction s)
  case Nil
  then show ?case by simp
next
  case (Cons c cs)
  show ?case
  proof (cases "is_space c")
    case True
    with Cons show ?thesis by (simp add: prefix_fence_dropWhile)
  next
    case False
    with Cons.prems show ?thesis by (simp del: before_first.simps)
  qed
qed

lemma star_space_lazy:
  "map_option fst (star_space (lazy_any closing) s)
     = map_option fst (lazy_any closing (dropWhile is_space s))"
proof (induction s)
  case Nil
  show ?case by simp
next
  case (Cons c cs)
  show ?case
  proof (cases "is_space c")
    case False
    then show ?thesis by simp
  next
    case True
    show ?thesis
    proof (cases "star_space (lazy_any closing) cs")
      case (Some r)
      with Cons True show ?thesis by simp
    next
      case None
      with Cons have "lazy_any closing (dropWhile is_space cs) = None" by simp
      then have "before_first fence (dropWhile is_space cs) = None"
        by (simp add: lazy_any_closing_None)
      then have "before_first fence (dropWhile is_space (c # cs)) = None"
        using True by simp
      then have "before_first fence (c # cs) = None"
        by (rule before_first_skip_spaces)
      then have "lazy_any closing (c # cs) = None"
        by (simp only: lazy_any_closing_None)
      with None True Cons show ?thesis by simp
    qed
  qed
qed

lemma before_first_head:
  "before_first p (c # cs) = Some b \<Longrightarrow> b = [] \<or> (\<exists>b'. b = c # b')"
  by (auto split: if_splits)

lemma trim_space_Cons: "is_space c \<Longrightarrow> trim (c # b) = trim b"
  by (simp add: trim_def)

lemma trim_strip_end: "trim b = strip_end (dropWhile is_space b)"
  by (simp add: trim_def strip_end_def)

lemma strip_end_skip_spaces:
  "map_option strip_end (before_first fence (dropWhile is_space s))
     = map_option trim (before_first fence s)"
proof (induction s)
  case Nil
  show ?case by (simp add: trim_def strip_end_def)
next
  case (Cons c cs)
  show ?case
  proof (cases "is_space c")
    case True
    have "map_option trim (before_first fence (c # cs))
            = map_option trim (before_first fence cs)"
      using True by (cases "before_first fence cs") (simp_all add: prefix_fence_dropWhile trim_space_Cons)
    with Cons True show ?thesis by simp
  next
    case False
    show ?thesis
    proof (cases "before_first fence (c # cs)")
      case None
      with False show ?thesis by (simp del: before_first.simps)
    next
      case (Some b)
      from before_first_head [OF Some] False have "trim b = strip_end b"
        by (auto simp: trim_strip_end)
      with Some False show ?thesis by (simp del: before_first.simps)
    qed
  qed
qed

lemma match_at_fenced:
  assumes "prefix fence_json s"
  shows "match_at s = map_option trim (before_first fence (drop (length fence_json) s))"
proof -
  have "match_at s = map_option fst (star_space (lazy_any closing) (drop (length fence_json) s))"
    using assms by (simp add: match_at_def literal_def)
  also have "\<dots> = map_option fst (lazy_any closing (dropWhile is_space (drop (length fence_json) s)))"
    by (rule star_space_lazy)
  also have "\<dots> = map_option strip_end
                     (before_first fence (dropWhile is_space (drop (length fence_json) s)))"
    by (rule lazy_any_closing)
  also have "\<dots> = map_option trim (before_first fence (drop (length fence_json) s))"
    by (rule strip_end_skip_spaces)
  finally show ?thesis .
qed

lemma match_at_unfenced: "\<not> prefix fence_json s \<Longrightarrow> match_at s = None"
  by (simp add: match_at_def literal_def)

lemma prefix_fence_json: "prefix fence_json s \<Longrightarrow> prefix fence s"
  by (auto simp: fence_json_def prefix_def)

lemma regex_match_no_fence: "before_first fence s = None \<Longrightarrow> regex_match s = None"
proof (induction s)
  case Nil
  show ?case by (simp add: match_at_unfenced fence_json_def fence_def)
next
  case (Cons c cs)
  from Cons.prems have nf: "\<not> prefix fence (c # cs)" and r: "before_first fence cs = None"
    by (auto split: if_splits)
  from nf have "match_at (c # cs) = None"
    using prefix_fence_json match_at_unfenced by blast
  with Cons.IH [OF r] show ?case by simp
qed

lemma no_fence_in_opening:
  assumes "before_first fence rest = None"
  shows "before_first fence ([0x60, 0x60] @ js ''json'' @ rest) = None"
  using assms by (simp add: js_def fence_def)

lemma regex_match_first_block: "regex_match s = first_block s"
proof (induction s)
  case Nil
  show ?case by (simp add: match_at_unfenced first_block_def fence_json_def fence_def)
next
  case (Cons c cs)
  show ?case
  proof (cases "prefix fence_json (c # cs)")
    case False
    then have "match_at (c # cs) = None" by (rule match_at_unfenced)
    with Cons False show ?thesis by (simp add: first_block_def)
  next
    case True
    let ?rest = "drop (length fence_json) (c # cs)"
    have m: "match_at (c # cs) = map_option trim (before_first fence ?rest)"
      using True by (rule match_at_fenced)
    have f: "first_block (c # cs) = map_option trim (before_first fence ?rest)"
      using True by (simp add: first_block_def)
    show ?thesis
    proof (cases "before_first fence ?rest")
      case (Some b)
      with m f show ?thesis by simp
    next
      case None
      from True have "c # cs = fence_json @ ?rest"
        by (metis append_take_drop_id prefix_def append_eq_conv_conj)
      then have "cs = [0x60, 0x60] @ js ''json'' @ ?rest"
        by (simp add: fence_json_def fence_def)
      then have "before_first fence cs = None"
        using no_fence_in_opening [OF None] by simp
      then have "regex_match cs = None" by (rule regex_match_no_fence)
      with m f None show ?thesis by simp
    qed
  qed
qed

text \<open>
  Claim C2 says that a response which is not JSON itself, but contains a fenced block
  whose inner content is valid JSON, is answered with the parse of that content. The
  pattern is matched once, at the first opening fence: when the first block holds
  "[1" and a second block holds "2", the function throws although the second block is
  valid.
\<close>

theorem second_block_counterexample:
  "two_blocks = fence_json @ js '' [1 '' @ fence @ js '' '' @ fence_json @ js '' 2 '' @ fence
   \<and> parse_stub (trim (js '' 2 '')) = Inr (JNum (js ''2''))
   \<and> parseJsonResponse parse_stub two_blocks = Inl (Failure msg_not_json)"
proof -
  have a: "parse_stub (trim (js '' 2 '')) = Inr (JNum (js ''2''))"
    by (simp add: parse_stub_def trim_def js_def is_space_def)
  have b: "first_block two_blocks = Some (js ''[1'')"
    by (simp add: first_block_def two_blocks_def fence_json_def fence_def js_def trim_def
          is_space_def)
  have c: "parse_stub two_blocks = Inl (Error (Some (js ''Unexpected token'')))"
    by (simp add: parse_stub_def two_blocks_def fence_json_def fence_def js_def)
  have d: "parse_stub (js ''[1'') = Inl (Error (Some (js ''Unexpected token'')))"
    by (simp add: parse_stub_def js_def)
  have "parseJsonResponse parse_stub two_blocks = Inl (Failure msg_not_json)"
    by (simp add: parseJsonResponse_def regex_match_first_block b c d)
  with a show ?thesis by (simp add: two_blocks_def)
qed

text \<open>
  Claim C2, as amended. For every input string, parseJsonResponse returns
  JSON.parse(rawText) when rawText is valid JSON. Otherwise it looks at the first fenced
  block only, from the first \<open>```json\<close> to the next \<open>```\<close>: when there is one and its
  inner content, the text between the fences without surrounding white space, is not
  empty and valid JSON, it returns the parse of that content. In every other case it
  throws its error; it never returns a value for an input that is unparseable both
  directly and after unfencing.
\<close>

theorem parseJsonResponse_first_block:
  "parseJsonResponse parse rawText =
     (case parse rawText of
        Inr v \<Rightarrow> Inr v
      | Inl e \<Rightarrow>
          (case first_block rawText of
             None \<Rightarrow> Inl (Failure msg_not_json)
           | Some inner \<Rightarrow>
               (case parse inner of
                  Inr v \<Rightarrow> if inner = [] then Inl (Failure msg_not_json) else Inr v
                | Inl e' \<Rightarrow> Inl (Failure msg_not_json))))"
  by (simp add: parseJsonResponse_def regex_match_first_block split: sum.splits option.splits)


end
